theory Spec2Isabelle
  imports Complex_Main "HOL-Library.AList" "HOL-Library.Word"
begin

section \<open>The assessment answer page as a state machine\<close>

text \<open>
  The development embeds the React component \<open>AssessmentAnswerPage\<close>: its
  \<open>useState\<close> cells become the fields of the record \<open>page\<close>, every handler becomes a
  function from the page to the next page together with the list of effects the handler
  performs (collaborator calls, toasts, console output, route changes), in the order the
  source performs them. A handler runs to completion before the next event; the answer of a
  collaborator that the handler awaits is an argument of the handler.
\<close>

subsection \<open>Data\<close>

text \<open>
  The types of the answers, the attempt and the assessment are declared in the module
  \<open>useAssessmentLink\<close>; the records below carry the fields that the page reads and
  writes.

  A JavaScript string is a sequence of UTF-16 code units. Identifiers are only compared,
  so they are kept as \<open>string\<close>; a text answer is trimmed and measured, so it is kept as
  its code units.
\<close>

type_synonym js_string = "16 word list"

text \<open>A field of type \<open>string | null | undefined\<close>.\<close>

datatype text_field = Undefined | Null | Text js_string

text \<open>
  \<open>AssessmentAnswer\<close>, the shape the page stores and sends. The filter of the auto-save
  tests \<open>ans.selectedChoiceIds\<close> for truthiness, so the field may be missing
  (\<open>None\<close>).
\<close>

record AssessmentAnswer =
  assessmentEntryId :: string
  selectedChoiceIds :: "string list option"
  textAnswer :: text_field

text \<open>The shape of a saved answer as the start call returns it.\<close>

record Choice =
  id_c :: string
  choiceText :: string
  choiceImageUrl :: "string option"
  isCorrect :: "bool option"

record SavedAnswer =
  assessmentEntryId_b :: string
  selectedChoices :: "Choice list option"
  textAnswer_b :: text_field

text \<open>
  \<open>startedAt\<close> is held as the epoch milliseconds that
  \<open>new Date(startedAt).getTime()\<close> yields for it, \<open>None\<close> when the field is missing
  or empty. Times are integers of milliseconds.
\<close>

record AssessmentAttempt =
  startedAt :: "int option"
  attemptStatus :: string
  assessmentAnswers :: "SavedAnswer list option"

record Question =
  id_q :: string
  weight :: int

record Section =
  title :: string
  questions :: "Question list"

record Assessment =
  name :: string
  timed :: bool
  duration :: int
  sections :: "Section list"

text \<open>
  The state cells of the component. \<open>answers\<close> is a JavaScript object used as a
  dictionary; it is kept as an association list in the order in which the keys were
  first written, which is the order \<open>Object.values\<close> enumerates them in (keys that
  are canonical array indices are enumerated first by JavaScript; that only permutes the
  list, and the properties below speak of its set and its length).
\<close>

record page =
  assessmentAttempt :: "AssessmentAttempt option"
  currentSectionIndex :: int
  currentQuestionIndex :: int
  answers :: "(string \<times> AssessmentAnswer) list"
  isStarted :: bool
  timeRemaining :: "int option"
  isTimeUp :: bool

definition initialPage :: page where
  "initialPage =
     \<lparr>assessmentAttempt = None, currentSectionIndex = 0, currentQuestionIndex = 0,
      answers = [], isStarted = False, timeRemaining = None, isTimeUp = False\<rparr>"

datatype effect =
    CallStartAssessment string
  | CallSaveAnswers string "AssessmentAnswer list"
  | CallSubmitAssessment string
  | RouterPush string
  | ToastError string
  | ToastWarning string
  | ToastRestored nat
  | ToastSuccess string
  | ConsoleError string

datatype error = TypeError

subsection \<open>Progress\<close>

definition totalQuestions :: "Assessment option \<Rightarrow> nat" where
  "totalQuestions a =
     (case a of None \<Rightarrow> 0
      | Some A \<Rightarrow> fold (\<lambda>section acc. acc + length (questions section)) (sections A) 0)"

definition answeredQuestions :: "page \<Rightarrow> nat" where
  "answeredQuestions s = length (answers s)"

definition allQuestionsAnswered :: "Assessment option \<Rightarrow> page \<Rightarrow> bool" where
  "allQuestionsAnswered a s \<longleftrightarrow>
     answeredQuestions s = totalQuestions a \<and> totalQuestions a > 0"

text \<open>Reading an array at a number: \<open>undefined\<close> outside the array.\<close>

definition arrayAt :: "'a list \<Rightarrow> int \<Rightarrow> 'a option" where
  "arrayAt xs i = (if 0 \<le> i \<and> i < int (length xs) then Some (xs ! nat i) else None)"

definition currentSection :: "Assessment option \<Rightarrow> page \<Rightarrow> Section option" where
  "currentSection a s =
     (case a of None \<Rightarrow> None | Some A \<Rightarrow> arrayAt (sections A) (currentSectionIndex s))"

subsection \<open>Submission\<close>

definition handleSubmit :: "string \<Rightarrow> bool \<Rightarrow> page \<Rightarrow> page \<times> effect list" where
  "handleSubmit linkId submitOk s =
     (s, CallSubmitAssessment linkId #
         (if submitOk then [RouterPush ''/'']
          else [ConsoleError ''Failed to submit assessment:'']))"

text \<open>
  The submit button carries
  \<open>disabled={isPending || isTimeUp || !allQuestionsAnswered}\<close>; a disabled button does
  not run its click handler.
\<close>

definition submitDisabled :: "bool \<Rightarrow> Assessment option \<Rightarrow> page \<Rightarrow> bool" where
  "submitDisabled isPending a s \<longleftrightarrow>
     isPending \<or> isTimeUp s \<or> \<not> allQuestionsAnswered a s"

definition clickSubmit ::
  "string \<Rightarrow> bool \<Rightarrow> bool \<Rightarrow> Assessment option \<Rightarrow> page \<Rightarrow> page \<times> effect list" where
  "clickSubmit linkId isPending submitOk a s =
     (if submitDisabled isPending a s then (s, []) else handleSubmit linkId submitOk s)"

subsection \<open>The countdown\<close>

text \<open>
  One run of \<open>updateTimer\<close> at the time \<open>now\<close>. The effect that owns it runs it once
  when it is set up and then every second, and is set up only while the attempt has a
  \<open>startedAt\<close>, the assessment is timed and \<open>isTimeUp\<close> is false.
\<close>

definition updateTimer :: "int \<Rightarrow> int \<Rightarrow> page \<Rightarrow> page \<times> effect list" where
  "updateTimer endTime now s =
     (let remaining = max 0 (endTime - now);
          s1 = s\<lparr>timeRemaining := Some \<lceil>real_of_int remaining / 1000\<rceil>\<rparr>
      in if remaining \<le> 0 \<and> \<not> isTimeUp s
         then (s1\<lparr>isTimeUp := True\<rparr>, [ToastError ''Time is up! Assessment time has expired.''])
         else (s1, []))"

definition timerTick :: "Assessment option \<Rightarrow> int \<Rightarrow> page \<Rightarrow> page \<times> effect list" where
  "timerTick a now s =
     (case assessmentAttempt s of
        None \<Rightarrow> (s, [])
      | Some att \<Rightarrow>
          (case startedAt att of
             None \<Rightarrow> (s, [])
           | Some startTime \<Rightarrow>
               (case a of
                  None \<Rightarrow> (s, [])
                | Some A \<Rightarrow>
                    if timed A \<and> \<not> isTimeUp s
                    then (let durationMs = duration A * 60 * 1000;
                              endTime = startTime + durationMs
                          in updateTimer endTime now s)
                    else (s, []))))"

subsection \<open>Starting and resuming\<close>

definition restoreAnswer :: "SavedAnswer \<Rightarrow> AssessmentAnswer" where
  "restoreAnswer answer =
     \<lparr>assessmentEntryId = assessmentEntryId_b answer,
      selectedChoiceIds =
        (case selectedChoices answer of
           None \<Rightarrow> Some []
         | Some cs \<Rightarrow> Some (map id_c cs)),
      textAnswer =
        (case textAnswer_b answer of
           Text t \<Rightarrow> if t = [] then Undefined else Text t
         | _ \<Rightarrow> Undefined)\<rparr>"

definition restoredAnswers :: "SavedAnswer list \<Rightarrow> (string \<times> AssessmentAnswer) list" where
  "restoredAnswers saved =
     fold (\<lambda>answer acc. AList.update (assessmentEntryId_b answer) (restoreAnswer answer) acc)
       saved []"

definition handleStartAssessment ::
  "string \<Rightarrow> unit + AssessmentAttempt \<Rightarrow> page \<Rightarrow> page \<times> effect list" where
  "handleStartAssessment linkId result s =
     (case result of
        Inl _ \<Rightarrow> (s, [CallStartAssessment linkId, ConsoleError ''Failed to start assessment:''])
      | Inr att \<Rightarrow>
          (let s1 = s\<lparr>assessmentAttempt := Some att\<rparr>;
               (s2, restored) =
                 (case assessmentAnswers att of
                    None \<Rightarrow> (s1, [])
                  | Some saved \<Rightarrow>
                      if length saved > 0
                      then (s1\<lparr>answers := restoredAnswers saved\<rparr>, [ToastRestored (length saved)])
                      else (s1, []))
           in (s2\<lparr>isStarted := True\<rparr>,
               CallStartAssessment linkId # restored @
               [ToastSuccess (if attemptStatus att = ''IN_PROGRESS''
                              then ''Continuing assessment...'' else ''Assessment started!'')])))"

subsection \<open>Editing an answer\<close>

text \<open>
  \<open>String.prototype.trim\<close> removes the white space and line terminator code units of
  ECMAScript from both ends.
\<close>

definition isWhiteSpace :: "16 word \<Rightarrow> bool" where
  "isWhiteSpace c \<longleftrightarrow>
     c \<in> set [0x0009, 0x000A, 0x000B, 0x000C, 0x000D, 0x0020, 0x00A0, 0x1680,
              0x2028, 0x2029, 0x202F, 0x205F, 0x3000, 0xFEFF]
     \<or> (0x2000 \<le> c \<and> c \<le> 0x200A)"

definition trim :: "js_string \<Rightarrow> js_string" where
  "trim t = rev (dropWhile isWhiteSpace (rev (dropWhile isWhiteSpace t)))"

text \<open>The predicate of the filter that builds \<open>validAnswers\<close>.\<close>

definition validAnswer :: "AssessmentAnswer \<Rightarrow> bool" where
  "validAnswer ans =
     (case textAnswer ans of
        Text t \<Rightarrow> length (trim t) > 0
      | _ \<Rightarrow> (case selectedChoiceIds ans of None \<Rightarrow> False | Some ids \<Rightarrow> length ids > 0))"

definition validAnswers :: "(string \<times> AssessmentAnswer) list \<Rightarrow> AssessmentAnswer list" where
  "validAnswers updatedAnswers = filter validAnswer (map snd updatedAnswers)"

text \<open>
  \<open>{ ...answers, [questionId]: answer }\<close> is \<open>AList.update\<close>: the value of an
  existing key is replaced where it stands, a new key is added at the end.
  \<open>saveOk\<close> tells whether the save call resolves or rejects.
\<close>

definition handleAnswerChange ::
  "string \<Rightarrow> bool \<Rightarrow> string \<Rightarrow> AssessmentAnswer \<Rightarrow> page \<Rightarrow> page \<times> effect list" where
  "handleAnswerChange linkId saveOk questionId answer s =
     (if isTimeUp s
      then (s, [ToastWarning ''Time is up! You can no longer modify your answers.''])
      else
        (let updatedAnswers = AList.update questionId answer (answers s);
             s1 = s\<lparr>answers := updatedAnswers\<rparr>
         in if length (validAnswers updatedAnswers) > 0
            then (s1, CallSaveAnswers linkId (validAnswers updatedAnswers) #
                      (if saveOk then [] else [ConsoleError ''Failed to auto-save answers:'']))
            else (s1, [])))"

subsection \<open>Navigation\<close>

definition navigateToQuestion :: "int \<Rightarrow> int \<Rightarrow> page \<Rightarrow> page \<times> effect list" where
  "navigateToQuestion sectionIndex questionIndex s =
     (if isTimeUp s
      then (s, [ToastWarning ''Time is up! Navigation is no longer available.''])
      else (s\<lparr>currentSectionIndex := sectionIndex, currentQuestionIndex := questionIndex\<rparr>, []))"

definition handleNext :: "Assessment option \<Rightarrow> page \<Rightarrow> page" where
  "handleNext a s =
     (case currentSection a s of
        None \<Rightarrow> s
      | Some cs \<Rightarrow>
          if isTimeUp s then s
          else if currentQuestionIndex s < int (length (questions cs)) - 1
          then s\<lparr>currentQuestionIndex := currentQuestionIndex s + 1\<rparr>
          else if currentSectionIndex s
                  < (case a of None \<Rightarrow> 0 | Some A \<Rightarrow> int (length (sections A))) - 1
          then s\<lparr>currentSectionIndex := currentSectionIndex s + 1, currentQuestionIndex := 0\<rparr>
          else s)"

text \<open>
  In \<open>handlePrevious\<close> the expression
  \<open>assessment?.sections[currentSectionIndex - 1].questions.length\<close> reads a property of
  \<open>undefined\<close> when there is an assessment and no section at that index: a
  \<open>TypeError\<close>, which nothing catches; the model ends there with the error. A length
  of zero is falsy and is replaced by one.
\<close>

definition handlePrevious :: "Assessment option \<Rightarrow> page \<Rightarrow> error + page" where
  "handlePrevious a s =
     (if isTimeUp s then Inr s
      else if currentQuestionIndex s > 0
      then Inr (s\<lparr>currentQuestionIndex := currentQuestionIndex s - 1\<rparr>)
      else if currentSectionIndex s > 0
      then (case a of
              None \<Rightarrow>
                Inr (s\<lparr>currentSectionIndex := currentSectionIndex s - 1,
                       currentQuestionIndex := 1 - 1\<rparr>)
            | Some A \<Rightarrow>
                (case arrayAt (sections A) (currentSectionIndex s - 1) of
                   None \<Rightarrow> Inl TypeError
                 | Some prev \<Rightarrow>
                     Inr (s\<lparr>currentSectionIndex := currentSectionIndex s - 1,
                            currentQuestionIndex :=
                              (if length (questions prev) = 0 then 1
                               else int (length (questions prev))) - 1\<rparr>)))
      else Inr s)"

subsection \<open>Events\<close>

text \<open>
  What can happen to a started page: a tick of the countdown at a time, an edit with the
  outcome of its save call, the three navigation actions, and a click on the submit
  button with the pending flag of the submit mutation and the outcome of its call.
  \<open>run\<close> feeds a list of events to the page, one after the other, collects the effects
  and stops at the first error. (A submission that succeeds leaves the page for another
  route; events listed after it are more than the page can receive, which only makes a
  statement about all lists of events stronger.)
\<close>

datatype event =
    Tick int
  | AnswerChange bool string AssessmentAnswer
  | NavigateTo int int
  | Next
  | Previous
  | ClickSubmit bool bool

fun step :: "string \<Rightarrow> Assessment option \<Rightarrow> event \<Rightarrow> page \<Rightarrow> error + page \<times> effect list" where
  "step linkId a (Tick now) s = Inr (timerTick a now s)"
| "step linkId a (AnswerChange saveOk questionId answer) s =
     Inr (handleAnswerChange linkId saveOk questionId answer s)"
| "step linkId a (NavigateTo sectionIndex questionIndex) s =
     Inr (navigateToQuestion sectionIndex questionIndex s)"
| "step linkId a Next s = Inr (handleNext a s, [])"
| "step linkId a Previous s =
     (case handlePrevious a s of Inl e \<Rightarrow> Inl e | Inr s' \<Rightarrow> Inr (s', []))"
| "step linkId a (ClickSubmit isPending submitOk) s =
     Inr (clickSubmit linkId isPending submitOk a s)"

fun run :: "string \<Rightarrow> Assessment option \<Rightarrow> event list \<Rightarrow> page \<Rightarrow> error + page \<times> effect list" where
  "run linkId a [] s = Inr (s, [])"
| "run linkId a (e # es) s =
     (case step linkId a e s of
        Inl err \<Rightarrow> Inl err
      | Inr (s1, effs1) \<Rightarrow>
          (case run linkId a es s1 of
             Inl err \<Rightarrow> Inl err
           | Inr (s2, effs2) \<Rightarrow> Inr (s2, effs1 @ effs2)))"

subsection \<open>The cursor range of the specification\<close>

text \<open>
  The specification asks for the cursor to be within
  \<open>[0, sectionCount) \<times> [0, questionCountInSection)\<close>: there is a section at the section
  index and a question of that section at the question index.
\<close>

definition cursorInRange :: "Assessment option \<Rightarrow> page \<Rightarrow> bool" where
  "cursorInRange a s =
     (case currentSection a s of
        None \<Rightarrow> False
      | Some cs \<Rightarrow>
          0 \<le> currentQuestionIndex s \<and> currentQuestionIndex s < int (length (questions cs)))"

text \<open>An event whose jump, if it is one, points at a question of the assessment.\<close>

definition targetInRange :: "Assessment \<Rightarrow> event \<Rightarrow> bool" where
  "targetInRange A e =
     (case e of
        NavigateTo sectionIndex questionIndex \<Rightarrow>
          (case arrayAt (sections A) sectionIndex of
             None \<Rightarrow> False
           | Some sec \<Rightarrow> 0 \<le> questionIndex \<and> questionIndex < int (length (questions sec)))
      | _ \<Rightarrow> True)"

subsection \<open>The counts of the specification\<close>

text \<open>The questions of all sections, in order.\<close>

definition allQuestions :: "Assessment option \<Rightarrow> Question list" where
  "allQuestions a = (case a of None \<Rightarrow> [] | Some A \<Rightarrow> concat (map questions (sections A)))"

text \<open>
  The specification counts the question ids whose stored answer is complete. The store
  has one entry per id, so these are the entries with a valid answer.
\<close>

definition completeAnswerCount :: "page \<Rightarrow> nat" where
  "completeAnswerCount s = length (filter (\<lambda>(q, ans). validAnswer ans) (answers s))"

text \<open>
  The specification lets a submission through when every question of every section has a
  stored answer that is complete.
\<close>

definition everyQuestionComplete :: "Assessment option \<Rightarrow> page \<Rightarrow> bool" where
  "everyQuestionComplete a s =
     list_all (\<lambda>question.
        case map_of (answers s) (id_q question) of
          None \<Rightarrow> False
        | Some ans \<Rightarrow> validAnswer ans) (allQuestions a)"

subsection \<open>Reading the effects, and sample data\<close>

text \<open>The payloads of the save calls among the effects of a handler, in order.\<close>

definition savePayloads :: "effect list \<Rightarrow> AssessmentAnswer list list" where
  "savePayloads effs =
     concat (map (\<lambda>e. case e of CallSaveAnswers l payload \<Rightarrow> [payload] | _ \<Rightarrow> []) effs)"

text \<open>Answers used at concrete inputs: one choice \<open>c1\<close> selected; a text of two blanks.\<close>

definition oneChoice :: "string \<Rightarrow> AssessmentAnswer" where
  "oneChoice q =
     \<lparr>assessmentEntryId = q, selectedChoiceIds = Some [''c1''], textAnswer = Undefined\<rparr>"

definition blankText :: "string \<Rightarrow> AssessmentAnswer" where
  "blankText q =
     \<lparr>assessmentEntryId = q, selectedChoiceIds = Some [], textAnswer = Text [0x20, 0x20]\<rparr>"

text \<open>
  An attempt as the start call returns it on a resume: started at \<open>T0 = 1700000000000\<close>,
  with a saved choice answer for \<open>q1\<close> and a saved text answer \<open>ok\<close> for \<open>q2\<close>.
\<close>

definition savedChoice :: SavedAnswer where
  "savedChoice =
     \<lparr>assessmentEntryId_b = ''q1'',
      selectedChoices =
        Some [\<lparr>id_c = ''c1'', choiceText = ''yes'', choiceImageUrl = None, isCorrect = None\<rparr>],
      textAnswer_b = Null\<rparr>"

definition savedText :: SavedAnswer where
  "savedText =
     \<lparr>assessmentEntryId_b = ''q2'', selectedChoices = None, textAnswer_b = Text [0x6F, 0x6B]\<rparr>"

definition resumedAttempt :: AssessmentAttempt where
  "resumedAttempt =
     \<lparr>startedAt = Some 1700000000000, attemptStatus = ''IN_PROGRESS'',
      assessmentAnswers = Some [savedChoice, savedText]\<rparr>"

text \<open>A timed assessment of 30 minutes with two sections of one question each.\<close>

definition twoSections :: Assessment where
  "twoSections =
     \<lparr>name = ''quiz'', timed = True, duration = 30,
      sections =
        [\<lparr>title = ''one'', questions = [\<lparr>id_q = ''q1'', weight = 1\<rparr>]\<rparr>,
         \<lparr>title = ''two'', questions = [\<lparr>id_q = ''q2'', weight = 1\<rparr>]\<rparr>]\<rparr>"

text \<open>
  The page that resumes this attempt and ticks for the first time 31 minutes after the
  start: its time is up.
\<close>

definition expiredPage :: page where
  "expiredPage =
     fst (timerTick (Some twoSections) (1700000000000 + 31 * 60 * 1000)
       (fst (handleStartAssessment ''L'' (Inr resumedAttempt) initialPage)))"

section \<open>Properties\<close>

subsection \<open>Shared facts\<close>

lemma saved_payload:
  "CallSaveAnswers l payload \<in> set (snd (handleAnswerChange linkId saveOk q b s)) \<Longrightarrow>
   payload = validAnswers (AList.update q b (answers s)) \<and> l = linkId \<and> payload \<noteq> []
   \<and> \<not> isTimeUp s"
  by (auto simp: handleAnswerChange_def Let_def split: if_splits)

subsection \<open>The completeness filter\<close>

text \<open>
  C10. In the filter of the auto-save, an answer whose \<open>textAnswer\<close> is a string (the
  empty string included) is judged by its trimmed text alone: changing
  \<open>selectedChoiceIds\<close> does not change the verdict. So an answer whose text trims to
  nothing is not valid whatever choices it carries, it is in no list of valid answers, and
  no save call of an edit carries it.
\<close>

theorem text_answer_decides_validity:
  assumes "textAnswer ans = Text t"
  shows "(validAnswer ans \<longleftrightarrow> length (trim t) > 0)
       \<and> validAnswer (ans\<lparr>selectedChoiceIds := ids\<rparr>) = validAnswer ans
       \<and> (trim t = [] \<longrightarrow>
            \<not> validAnswer ans
          \<and> ans \<notin> set (validAnswers stored)
          \<and> (\<forall>l payload.
                CallSaveAnswers l payload \<in> set (snd (handleAnswerChange linkId saveOk q b s))
                \<longrightarrow> ans \<notin> set payload))"
proof -
  have v: "validAnswer ans \<longleftrightarrow> length (trim t) > 0"
    using assms by (simp add: validAnswer_def)
  have i: "validAnswer (ans\<lparr>selectedChoiceIds := ids\<rparr>) = validAnswer ans"
    using assms by (simp add: validAnswer_def)
  have e: "\<not> validAnswer ans \<Longrightarrow> ans \<notin> set (validAnswers xs)" for xs
    by (simp add: validAnswers_def)
  show ?thesis
    using v i e by (auto dest!: saved_payload)
qed

theorem text_answer_decides_validity_witness:
  "textAnswer \<lparr>assessmentEntryId = ''q1'', selectedChoiceIds = Some [''c1''],
               textAnswer = Text [0x20, 0x09]\<rparr> = Text [0x20, 0x09]
   \<and> trim [0x20, 0x09] = []
   \<and> \<not> validAnswer \<lparr>assessmentEntryId = ''q1'', selectedChoiceIds = Some [''c1''],
                      textAnswer = Text [0x20, 0x09]\<rparr>
   \<and> snd (handleAnswerChange ''L'' True ''q1''
        \<lparr>assessmentEntryId = ''q1'', selectedChoiceIds = Some [''c1''],
         textAnswer = Text [0x20, 0x09]\<rparr> initialPage) = []"
  using text_answer_decides_validity
    [of "\<lparr>assessmentEntryId = ''q1'', selectedChoiceIds = Some [''c1''],
          textAnswer = Text [0x20, 0x09]\<rparr>" "[0x20, 0x09]"]
  by (simp add: trim_def isWhiteSpace_def handleAnswerChange_def initialPage_def
      validAnswers_def)

lemma handleAnswerChange_open:
  "\<not> isTimeUp s \<Longrightarrow>
   fst (handleAnswerChange linkId saveOk q a s) = s\<lparr>answers := AList.update q a (answers s)\<rparr>"
  by (simp add: handleAnswerChange_def Let_def)

lemma handleAnswerChange_payloads:
  "\<not> isTimeUp s \<Longrightarrow>
   savePayloads (snd (handleAnswerChange linkId saveOk q a s)) =
     (if validAnswers (AList.update q a (answers s)) = [] then []
      else [validAnswers (AList.update q a (answers s))])"
  by (simp add: handleAnswerChange_def Let_def savePayloads_def)

subsection \<open>Editing and auto-save\<close>

text \<open>
  C3. An edit that the time-up flag does not block replaces the stored answer of its
  question by the given answer and leaves every other entry as it was. The save calls of
  the edit carry exactly the stored answers that are valid: there is one call, with that
  set, when the set is not empty, and no call when it is empty. Valid means: for an answer
  with a text, the trimmed text is not empty; for any other answer, the list of selected
  choices exists and is not empty. The same edit made a second time gives the same page
  and the same effects.
\<close>

theorem edit_replaces_and_saves_valid_subset:
  assumes "\<not> isTimeUp s"
  shows "map_of (answers (fst (handleAnswerChange linkId saveOk q a s))) q = Some a
       \<and> (\<forall>q'. q' \<noteq> q \<longrightarrow>
            map_of (answers (fst (handleAnswerChange linkId saveOk q a s))) q'
              = map_of (answers s) q')
       \<and> map set (savePayloads (snd (handleAnswerChange linkId saveOk q a s))) =
           (if {b \<in> snd ` set (answers (fst (handleAnswerChange linkId saveOk q a s))).
                  validAnswer b} = {}
            then []
            else [{b \<in> snd ` set (answers (fst (handleAnswerChange linkId saveOk q a s))).
                     validAnswer b}])
       \<and> (validAnswer b \<longleftrightarrow>
            (case textAnswer b of
               Text t \<Rightarrow> length (trim t) \<noteq> 0
             | _ \<Rightarrow> (\<exists>ids. selectedChoiceIds b = Some ids \<and> set ids \<noteq> {})))
       \<and> handleAnswerChange linkId saveOk q a (fst (handleAnswerChange linkId saveOk q a s)) =
           handleAnswerChange linkId saveOk q a s"
proof -
  let ?s' = "fst (handleAnswerChange linkId saveOk q a s)"
  have st: "?s' = s\<lparr>answers := AList.update q a (answers s)\<rparr>"
    using assms by (rule handleAnswerChange_open)
  have 1: "map_of (answers ?s') q = Some a"
    by (simp add: st update_conv')
  have 2: "\<forall>q'. q' \<noteq> q \<longrightarrow> map_of (answers ?s') q' = map_of (answers s) q'"
    by (simp add: st update_conv')
  have sv: "set (validAnswers xs) = {b \<in> snd ` set xs. validAnswer b}" for xs
    by (auto simp: validAnswers_def)
  have 3: "map set (savePayloads (snd (handleAnswerChange linkId saveOk q a s))) =
           (if {b \<in> snd ` set (answers ?s'). validAnswer b} = {} then []
            else [{b \<in> snd ` set (answers ?s'). validAnswer b}])"
    unfolding handleAnswerChange_payloads [OF assms] sv [symmetric]
    by (simp add: st)
  have 4: "validAnswer b \<longleftrightarrow>
            (case textAnswer b of
               Text t \<Rightarrow> length (trim t) \<noteq> 0
             | _ \<Rightarrow> (\<exists>ids. selectedChoiceIds b = Some ids \<and> set ids \<noteq> {}))"
    by (auto simp: validAnswer_def split: text_field.splits option.splits)
  have 5: "handleAnswerChange linkId saveOk q a ?s' = handleAnswerChange linkId saveOk q a s"
    using assms by (simp add: handleAnswerChange_def Let_def)
  show ?thesis using 1 2 3 4 5 by blast
qed

theorem edit_replaces_and_saves_valid_subset_witness:
  "\<not> isTimeUp (initialPage\<lparr>answers := [(''q1'', blankText ''q1'')]\<rparr>)
   \<and> map_of (answers (fst (handleAnswerChange ''L'' True ''q2'' (oneChoice ''q2'')
        (initialPage\<lparr>answers := [(''q1'', blankText ''q1'')]\<rparr>)))) ''q2''
       = Some (oneChoice ''q2'')
   \<and> map_of (answers (fst (handleAnswerChange ''L'' True ''q2'' (oneChoice ''q2'')
        (initialPage\<lparr>answers := [(''q1'', blankText ''q1'')]\<rparr>)))) ''q1''
       = Some (blankText ''q1'')
   \<and> savePayloads (snd (handleAnswerChange ''L'' True ''q2'' (oneChoice ''q2'')
        (initialPage\<lparr>answers := [(''q1'', blankText ''q1'')]\<rparr>))) = [[oneChoice ''q2'']]"
  using edit_replaces_and_saves_valid_subset
    [of "initialPage\<lparr>answers := [(''q1'', blankText ''q1'')]\<rparr>" "''L''" True "''q2''"
        "oneChoice ''q2''" "oneChoice ''q2''"]
  by (simp add: initialPage_def handleAnswerChange_def savePayloads_def validAnswers_def
      validAnswer_def blankText_def oneChoice_def trim_def isWhiteSpace_def)

text \<open>
  C9. When the save call of an edit fails, the handler still returns: the page is the one
  a successful save leaves, with the new answer stored and nothing else changed, and the
  failure shows only as a line on the console. The time-up flag is still false, so the
  next edit is accepted and stored as well.
\<close>

theorem save_failure_is_swallowed:
  assumes "\<not> isTimeUp s"
  shows "fst (handleAnswerChange linkId False q a s) = fst (handleAnswerChange linkId True q a s)
       \<and> fst (handleAnswerChange linkId False q a s)
           = s\<lparr>answers := AList.update q a (answers s)\<rparr>
       \<and> map_of (answers (fst (handleAnswerChange linkId False q a s))) q = Some a
       \<and> snd (handleAnswerChange linkId False q a s) =
           snd (handleAnswerChange linkId True q a s) @
           (if validAnswers (AList.update q a (answers s)) = [] then []
            else [ConsoleError ''Failed to auto-save answers:''])
       \<and> \<not> isTimeUp (fst (handleAnswerChange linkId False q a s))
       \<and> map_of (answers (fst (handleAnswerChange linkId saveOk' q' a'
            (fst (handleAnswerChange linkId False q a s))))) q' = Some a'"
proof -
  let ?s' = "fst (handleAnswerChange linkId False q a s)"
  have st: "?s' = s\<lparr>answers := AList.update q a (answers s)\<rparr>"
    using assms by (rule handleAnswerChange_open)
  have up: "\<not> isTimeUp ?s'"
    using assms by (simp add: st)
  have nxt: "map_of (answers (fst (handleAnswerChange linkId saveOk' q' a' ?s'))) q' = Some a'"
    by (simp add: handleAnswerChange_open [OF up] update_conv')
  have effs: "snd (handleAnswerChange linkId False q a s) =
           snd (handleAnswerChange linkId True q a s) @
           (if validAnswers (AList.update q a (answers s)) = [] then []
            else [ConsoleError ''Failed to auto-save answers:''])"
    using assms by (simp add: handleAnswerChange_def Let_def)
  show ?thesis
    using st up nxt effs handleAnswerChange_open [OF assms, of linkId True q a]
    by (simp add: update_conv')
qed

theorem save_failure_is_swallowed_witness:
  "\<not> isTimeUp initialPage
   \<and> handleAnswerChange ''L'' False ''q1'' (oneChoice ''q1'') initialPage =
       (initialPage\<lparr>answers := [(''q1'', oneChoice ''q1'')]\<rparr>,
        [CallSaveAnswers ''L'' [oneChoice ''q1''], ConsoleError ''Failed to auto-save answers:''])
   \<and> answers (fst (handleAnswerChange ''L'' True ''q2'' (oneChoice ''q2'')
        (fst (handleAnswerChange ''L'' False ''q1'' (oneChoice ''q1'') initialPage)))) =
       [(''q1'', oneChoice ''q1''), (''q2'', oneChoice ''q2'')]"
  using save_failure_is_swallowed [of initialPage "''L''" "''q1''" "oneChoice ''q1''"]
  by (simp add: initialPage_def handleAnswerChange_def validAnswers_def validAnswer_def
      oneChoice_def)

lemma ceil_div_1000: "\<lceil>real_of_int r / 1000\<rceil> = - ((- r) div 1000)"
  using ceiling_divide_eq_div [of r 1000, where ?'a = real] by simp

lemma map_of_fold_update:
  "map_of (fold (\<lambda>x acc. AList.update (kf x) (vf x) acc) xs acc) =
   map_of acc ++ map_of (rev (map (\<lambda>x. (kf x, vf x)) xs))"
proof (induction xs arbitrary: acc)
  case Nil
  show ?case by simp
next
  case (Cons x xs)
  show ?case
    by (simp add: Cons.IH update_conv' fun_eq_iff map_add_def split: option.splits)
qed

lemma restoredAnswers_last:
  assumes "saved = before @ p # after"
    and "\<forall>y \<in> set after. assessmentEntryId_b y \<noteq> assessmentEntryId_b p"
  shows "map_of (restoredAnswers saved) (assessmentEntryId_b p) = Some (restoreAnswer p)"
proof -
  have "map_of (rev (map (\<lambda>x. (assessmentEntryId_b x, restoreAnswer x)) after))
          (assessmentEntryId_b p) = None"
    using assms(2) by (force simp: map_of_eq_None_iff)
  then show ?thesis
    unfolding restoredAnswers_def map_of_fold_update assms(1)
    by (simp add: map_add_def)
qed

lemma handleStartAssessment_answers:
  "assessmentAnswers att = Some saved \<Longrightarrow> saved \<noteq> [] \<Longrightarrow>
   answers (fst (handleStartAssessment linkId (Inr att) s)) = restoredAnswers saved"
  by (simp add: handleStartAssessment_def Let_def)

subsection \<open>Resuming\<close>

text \<open>
  C8. When the start call succeeds and returns saved answers, every saved answer that is
  the last one returned for its question is stored under the id of its question in the
  shape of the page: the ids of its selected choices in their order, the empty list when
  it has no selected choices. A saved answer whose one selected choice has the id \<open>c1\<close>
  is stored with the id list \<open>[c1]\<close>.
\<close>

theorem restored_answers_carry_choice_ids:
  assumes "assessmentAnswers att = Some (before @ p # after)"
    and "\<forall>y \<in> set after. assessmentEntryId_b y \<noteq> assessmentEntryId_b p"
  shows "\<exists>stored.
           map_of (answers (fst (handleStartAssessment linkId (Inr att) s)))
             (assessmentEntryId_b p) = Some stored
         \<and> assessmentEntryId stored = assessmentEntryId_b p
         \<and> selectedChoiceIds stored =
             Some (case selectedChoices p of None \<Rightarrow> [] | Some cs \<Rightarrow> map id_c cs)
         \<and> (\<forall>c. selectedChoices p = Some [c] \<and> id_c c = ''c1''
                \<longrightarrow> selectedChoiceIds stored = Some [''c1''])
         \<and> (selectedChoices p = None \<longrightarrow> selectedChoiceIds stored = Some [])"
proof -
  have "answers (fst (handleStartAssessment linkId (Inr att) s))
          = restoredAnswers (before @ p # after)"
    using assms(1) by (simp add: handleStartAssessment_answers)
  then have "map_of (answers (fst (handleStartAssessment linkId (Inr att) s)))
               (assessmentEntryId_b p) = Some (restoreAnswer p)"
    using restoredAnswers_last [OF refl assms(2)] by simp
  then show ?thesis
    by (auto simp: restoreAnswer_def split: option.splits)
qed

theorem restored_answers_carry_choice_ids_witness:
  "assessmentAnswers resumedAttempt = Some ([] @ savedChoice # [savedText])
   \<and> list_all (\<lambda>y. assessmentEntryId_b y \<noteq> assessmentEntryId_b savedChoice) [savedText]
   \<and> selectedChoices savedChoice
       = Some [\<lparr>id_c = ''c1'', choiceText = ''yes'', choiceImageUrl = None, isCorrect = None\<rparr>]
   \<and> map_of (answers (fst (handleStartAssessment ''L'' (Inr resumedAttempt) initialPage))) ''q1''
       = Some \<lparr>assessmentEntryId = ''q1'', selectedChoiceIds = Some [''c1''],
               textAnswer = Undefined\<rparr>"
  using restored_answers_carry_choice_ids [of resumedAttempt "[]" savedChoice "[savedText]" "''L''" initialPage]
  by (simp add: resumedAttempt_def savedChoice_def savedText_def handleStartAssessment_def
      restoredAnswers_def restoreAnswer_def initialPage_def)

lemma timerTick_armed:
  assumes "timed A" "assessmentAttempt s = Some att" "startedAt att = Some T0" "\<not> isTimeUp s"
  shows "timerTick (Some A) now s = updateTimer (T0 + duration A * 60 * 1000) now s"
  using assms by (simp add: timerTick_def Let_def)

lemma handleStartAssessment_fields:
  "assessmentAttempt (fst (handleStartAssessment linkId (Inr att) s)) = Some att
   \<and> isTimeUp (fst (handleStartAssessment linkId (Inr att) s)) = isTimeUp s
   \<and> isStarted (fst (handleStartAssessment linkId (Inr att) s))"
  by (simp add: handleStartAssessment_def Let_def split: option.splits prod.splits)

subsection \<open>The countdown\<close>

text \<open>
  C4. For a timed assessment and an attempt with a start time \<open>T0\<close>, while the time-up
  flag is false, a tick at the time \<open>now\<close> sets the remaining seconds to
  \<open>ceil (max 0 (T0 + duration * 60 * 1000 - now) / 1000)\<close> and sets the time-up flag
  exactly when \<open>now\<close> has reached \<open>T0 + duration * 60 * 1000\<close>. With a duration of
  30 minutes, a fresh page that resumes the attempt and ticks for the first time 31
  minutes after \<open>T0\<close> has the time-up flag set by that tick.
\<close>

theorem countdown_is_anchored_at_startedAt:
  assumes "timed A" "assessmentAttempt s = Some att" "startedAt att = Some T0" "\<not> isTimeUp s"
  shows "timeRemaining (fst (timerTick (Some A) now s))
           = Some \<lceil>real_of_int (max 0 (T0 + duration A * 60 * 1000 - now)) / 1000\<rceil>
       \<and> (isTimeUp (fst (timerTick (Some A) now s)) \<longleftrightarrow> T0 + duration A * 60 * 1000 \<le> now)
       \<and> (duration A = 30 \<longrightarrow>
            isTimeUp (fst (timerTick (Some A) (T0 + 31 * 60 * 1000)
              (fst (handleStartAssessment linkId (Inr att) initialPage)))))"
proof -
  have tick: "timerTick (Some A) now s = updateTimer (T0 + duration A * 60 * 1000) now s"
    using assms by (rule timerTick_armed)
  have rem: "timeRemaining (fst (timerTick (Some A) now s))
           = Some \<lceil>real_of_int (max 0 (T0 + duration A * 60 * 1000 - now)) / 1000\<rceil>"
    unfolding tick by (simp add: updateTimer_def Let_def)
  have up: "isTimeUp (fst (timerTick (Some A) now s)) \<longleftrightarrow> T0 + duration A * 60 * 1000 \<le> now"
    unfolding tick using assms(4) by (simp add: updateTimer_def Let_def)
  have reload: "isTimeUp (fst (timerTick (Some A) (T0 + 31 * 60 * 1000)
              (fst (handleStartAssessment linkId (Inr att) initialPage))))"
    if d: "duration A = 30"
  proof -
    let ?s0 = "fst (handleStartAssessment linkId (Inr att) initialPage)"
    have a: "assessmentAttempt ?s0 = Some att" and n: "\<not> isTimeUp ?s0"
      using handleStartAssessment_fields [of linkId att initialPage]
      by (simp_all add: initialPage_def)
    show ?thesis
      unfolding timerTick_armed [OF assms(1) a assms(3) n]
      using n d by (simp add: updateTimer_def Let_def)
  qed
  show ?thesis using rem up reload by blast
qed

theorem countdown_is_anchored_at_startedAt_witness:
  "timed twoSections \<and> duration twoSections = 30
   \<and> assessmentAttempt (fst (handleStartAssessment ''L'' (Inr resumedAttempt) initialPage))
       = Some resumedAttempt
   \<and> startedAt resumedAttempt = Some 1700000000000
   \<and> \<not> isTimeUp (fst (handleStartAssessment ''L'' (Inr resumedAttempt) initialPage))
   \<and> timeRemaining (fst (timerTick (Some twoSections) (1700000000000 + 29 * 60 * 1000 + 1)
        (fst (handleStartAssessment ''L'' (Inr resumedAttempt) initialPage)))) = Some 60
   \<and> \<not> isTimeUp (fst (timerTick (Some twoSections) (1700000000000 + 29 * 60 * 1000 + 1)
        (fst (handleStartAssessment ''L'' (Inr resumedAttempt) initialPage))))
   \<and> isTimeUp (fst (timerTick (Some twoSections) (1700000000000 + 31 * 60 * 1000)
        (fst (handleStartAssessment ''L'' (Inr resumedAttempt) initialPage))))"
  using countdown_is_anchored_at_startedAt
    [of twoSections "fst (handleStartAssessment ''L'' (Inr resumedAttempt) initialPage)"
        resumedAttempt 1700000000000 "1700000000000 + 29 * 60 * 1000 + 1" "''L''"]
  by (simp add: twoSections_def resumedAttempt_def handleStartAssessment_def initialPage_def
      ceil_div_1000)

lemma step_when_time_up:
  assumes "isTimeUp s"
  shows "\<exists>effs. step linkId a e s = Inr (s, effs)
           \<and> set effs \<subseteq> {ToastWarning ''Time is up! You can no longer modify your answers.'',
                          ToastWarning ''Time is up! Navigation is no longer available.''}"
proof (cases e)
  case (Tick now)
  then show ?thesis
    using assms by (simp add: timerTick_def split: option.splits)
next
  case (AnswerChange saveOk questionId answer)
  then show ?thesis
    using assms by (simp add: handleAnswerChange_def)
next
  case (NavigateTo sectionIndex questionIndex)
  then show ?thesis
    using assms by (simp add: navigateToQuestion_def)
next
  case Next
  then show ?thesis
    using assms by (simp add: handleNext_def split: option.splits)
next
  case Previous
  then show ?thesis
    using assms by (simp add: handlePrevious_def)
next
  case (ClickSubmit isPending submitOk)
  then show ?thesis
    using assms by (simp add: clickSubmit_def submitDisabled_def)
qed

lemma run_when_time_up:
  assumes "isTimeUp s"
  shows "\<exists>effs. run linkId a evs s = Inr (s, effs)
           \<and> set effs \<subseteq> {ToastWarning ''Time is up! You can no longer modify your answers.'',
                          ToastWarning ''Time is up! Navigation is no longer available.''}"
proof (induction evs)
  case Nil
  show ?case by simp
next
  case (Cons e evs)
  obtain effs1 where 1: "step linkId a e s = Inr (s, effs1)"
    and w1: "set effs1 \<subseteq> {ToastWarning ''Time is up! You can no longer modify your answers.'',
                          ToastWarning ''Time is up! Navigation is no longer available.''}"
    using step_when_time_up [OF assms] by blast
  obtain effs2 where 2: "run linkId a evs s = Inr (s, effs2)"
    and w2: "set effs2 \<subseteq> {ToastWarning ''Time is up! You can no longer modify your answers.'',
                          ToastWarning ''Time is up! Navigation is no longer available.''}"
    using Cons.IH by blast
  have "run linkId a (e # evs) s = Inr (s, effs1 @ effs2)"
    by (simp add: 1 2)
  then show ?case
    using w1 w2 by auto
qed

subsection \<open>Expiry\<close>

text \<open>
  C5. The statement of the specification does not hold for next and previous: after the
  time is up they return without any effect, so the attempt is answered by no notice.
  On the expired page, with the cursor on the first question and then on the second, a
  next step and a previous step leave the page as it is and produce no effect at all.
\<close>

theorem next_and_previous_after_expiry_give_no_notice:
  "isTimeUp expiredPage
   \<and> step ''L'' (Some twoSections) Next expiredPage = Inr (expiredPage, [])
   \<and> isTimeUp (expiredPage\<lparr>currentSectionIndex := 1\<rparr>)
   \<and> step ''L'' (Some twoSections) Previous (expiredPage\<lparr>currentSectionIndex := 1\<rparr>)
       = Inr (expiredPage\<lparr>currentSectionIndex := 1\<rparr>, [])"
  by (simp add: expiredPage_def twoSections_def resumedAttempt_def handleStartAssessment_def
      initialPage_def timerTick_def updateTimer_def handleNext_def handlePrevious_def
      currentSection_def arrayAt_def)

text \<open>
  C5, amended. Once the time-up flag is set, every sequence of ticks, edits, jumps, next
  and previous steps and submit clicks runs without an error and ends in the very same
  page: the flag is still set, the answers and the cursor are as they were. Starting
  again does not clear the flag either. An edit answers with the warning that answers
  can no longer be modified, a jump with the warning that navigation is no longer
  available; a next step and a previous step have no effect at all, and a sequence of
  events has no effect other than those two warnings.
\<close>

theorem time_up_is_latched:
  assumes "isTimeUp s"
  shows "(\<exists>effs. run linkId a evs s = Inr (s, effs)
            \<and> set effs \<subseteq> {ToastWarning ''Time is up! You can no longer modify your answers.'',
                           ToastWarning ''Time is up! Navigation is no longer available.''})
       \<and> handleAnswerChange linkId saveOk q ans s
           = (s, [ToastWarning ''Time is up! You can no longer modify your answers.''])
       \<and> navigateToQuestion i j s
           = (s, [ToastWarning ''Time is up! Navigation is no longer available.''])
       \<and> handleNext a s = s
       \<and> handlePrevious a s = Inr s
       \<and> step linkId a Next s = Inr (s, [])
       \<and> step linkId a Previous s = Inr (s, [])
       \<and> fst (timerTick a now s) = s
       \<and> isTimeUp (fst (handleStartAssessment linkId result s))"
proof -
  have "isTimeUp (fst (handleStartAssessment linkId result s))"
    using assms
    by (cases result) (simp_all add: handleStartAssessment_def Let_def split: option.splits)
  moreover have "fst (timerTick a now s) = s"
    using assms by (simp add: timerTick_def split: option.splits)
  moreover have "handleNext a s = s"
    using assms by (simp add: handleNext_def split: option.splits)
  ultimately show ?thesis
    using assms run_when_time_up [OF assms, of linkId a evs]
    by (simp add: handleAnswerChange_def navigateToQuestion_def handlePrevious_def)
qed

theorem time_up_is_latched_witness:
  "isTimeUp (fst (timerTick (Some twoSections) (1700000000000 + 31 * 60 * 1000)
      (fst (handleStartAssessment ''L'' (Inr resumedAttempt) initialPage))))
   \<and> run ''L'' (Some twoSections)
       [AnswerChange True ''q2'' (oneChoice ''q2''), Next, Tick (1700000000000 + 32 * 60 * 1000),
        NavigateTo 1 0, Previous, ClickSubmit False True]
       (fst (timerTick (Some twoSections) (1700000000000 + 31 * 60 * 1000)
          (fst (handleStartAssessment ''L'' (Inr resumedAttempt) initialPage))))
     = Inr (fst (timerTick (Some twoSections) (1700000000000 + 31 * 60 * 1000)
              (fst (handleStartAssessment ''L'' (Inr resumedAttempt) initialPage))),
            [ToastWarning ''Time is up! You can no longer modify your answers.'',
             ToastWarning ''Time is up! Navigation is no longer available.''])"
  using time_up_is_latched
    [of "fst (timerTick (Some twoSections) (1700000000000 + 31 * 60 * 1000)
          (fst (handleStartAssessment ''L'' (Inr resumedAttempt) initialPage)))"
        "''L''" "Some twoSections"
        "[AnswerChange True ''q2'' (oneChoice ''q2''), Next, Tick (1700000000000 + 32 * 60 * 1000),
          NavigateTo 1 0, Previous, ClickSubmit False True]"]
  by (simp add: twoSections_def resumedAttempt_def handleStartAssessment_def initialPage_def
      timerTick_def updateTimer_def handleAnswerChange_def navigateToQuestion_def
      handleNext_def handlePrevious_def clickSubmit_def submitDisabled_def currentSection_def
      arrayAt_def)

subsection \<open>Navigation\<close>

text \<open>
  C7. On a page whose time is not up and whose cursor is on a question of the assessment:
  next moves to the following question of the section when the cursor is not on the last
  question of the section, else to the first question of the following section when
  there is one, else it changes nothing; previous moves to the preceding question of the
  section when the cursor is not on the first one, else to the last question of the
  preceding section when there is one (to index 0 when that section has no question),
  else it changes nothing. So previous at (0, 0) and next at the last question of the last
  section leave the page as it is.
\<close>

theorem next_and_previous_walk_the_questions:
  assumes "\<not> isTimeUp s"
    and "arrayAt (sections A) (currentSectionIndex s) = Some cs"
    and "0 \<le> currentQuestionIndex s"
    and "currentQuestionIndex s < int (length (questions cs))"
  shows "(currentQuestionIndex s \<noteq> int (length (questions cs)) - 1 \<longrightarrow>
            handleNext (Some A) s = s\<lparr>currentQuestionIndex := currentQuestionIndex s + 1\<rparr>)
       \<and> (currentQuestionIndex s = int (length (questions cs)) - 1
            \<and> currentSectionIndex s \<noteq> int (length (sections A)) - 1 \<longrightarrow>
            handleNext (Some A) s =
              s\<lparr>currentSectionIndex := currentSectionIndex s + 1, currentQuestionIndex := 0\<rparr>)
       \<and> (currentQuestionIndex s = int (length (questions cs)) - 1
            \<and> currentSectionIndex s = int (length (sections A)) - 1 \<longrightarrow>
            handleNext (Some A) s = s)
       \<and> (currentQuestionIndex s \<noteq> 0 \<longrightarrow>
            handlePrevious (Some A) s
              = Inr (s\<lparr>currentQuestionIndex := currentQuestionIndex s - 1\<rparr>))
       \<and> (currentQuestionIndex s = 0 \<and> currentSectionIndex s \<noteq> 0 \<longrightarrow>
            (\<exists>prev. arrayAt (sections A) (currentSectionIndex s - 1) = Some prev
               \<and> handlePrevious (Some A) s =
                   Inr (s\<lparr>currentSectionIndex := currentSectionIndex s - 1,
                          currentQuestionIndex :=
                            (if questions prev = [] then 0
                             else int (length (questions prev)) - 1)\<rparr>)))
       \<and> (currentQuestionIndex s = 0 \<and> currentSectionIndex s = 0 \<longrightarrow>
            handlePrevious (Some A) s = Inr s)"
proof -
  have range: "0 \<le> currentSectionIndex s" "currentSectionIndex s < int (length (sections A))"
    using assms(2) by (simp_all add: arrayAt_def split: if_splits)
  have cur: "currentSection (Some A) s = Some cs"
    using assms(2) by (simp add: currentSection_def)
  have n1: "currentQuestionIndex s \<noteq> int (length (questions cs)) - 1 \<longrightarrow>
            handleNext (Some A) s = s\<lparr>currentQuestionIndex := currentQuestionIndex s + 1\<rparr>"
    using assms(1,4) by (simp add: handleNext_def cur)
  have n2: "currentQuestionIndex s = int (length (questions cs)) - 1
            \<and> currentSectionIndex s \<noteq> int (length (sections A)) - 1 \<longrightarrow>
            handleNext (Some A) s =
              s\<lparr>currentSectionIndex := currentSectionIndex s + 1, currentQuestionIndex := 0\<rparr>"
    using assms(1) range by (simp add: handleNext_def cur)
  have n3: "currentQuestionIndex s = int (length (questions cs)) - 1
            \<and> currentSectionIndex s = int (length (sections A)) - 1 \<longrightarrow>
            handleNext (Some A) s = s"
    using assms(1) by (simp add: handleNext_def cur)
  have p1: "currentQuestionIndex s \<noteq> 0 \<longrightarrow>
            handlePrevious (Some A) s
              = Inr (s\<lparr>currentQuestionIndex := currentQuestionIndex s - 1\<rparr>)"
    using assms(1,3) by (simp add: handlePrevious_def)
  have p2: "currentQuestionIndex s = 0 \<and> currentSectionIndex s \<noteq> 0 \<longrightarrow>
            (\<exists>prev. arrayAt (sections A) (currentSectionIndex s - 1) = Some prev
               \<and> handlePrevious (Some A) s =
                   Inr (s\<lparr>currentSectionIndex := currentSectionIndex s - 1,
                          currentQuestionIndex :=
                            (if questions prev = [] then 0
                             else int (length (questions prev)) - 1)\<rparr>))"
    using assms(1) range by (simp add: handlePrevious_def arrayAt_def)
  have p3: "currentQuestionIndex s = 0 \<and> currentSectionIndex s = 0 \<longrightarrow>
            handlePrevious (Some A) s = Inr s"
    using assms(1) by (simp add: handlePrevious_def)
  show ?thesis
    using n1 n2 n3 p1 p2 p3 by blast
qed

theorem next_and_previous_walk_the_questions_witness:
  "\<not> isTimeUp initialPage
   \<and> arrayAt (sections twoSections) (currentSectionIndex initialPage)
       = Some \<lparr>title = ''one'', questions = [\<lparr>id_q = ''q1'', weight = 1\<rparr>]\<rparr>
   \<and> currentQuestionIndex initialPage = 0
   \<and> handlePrevious (Some twoSections) initialPage = Inr initialPage
   \<and> handleNext (Some twoSections) initialPage = initialPage\<lparr>currentSectionIndex := 1\<rparr>
   \<and> handleNext (Some twoSections) (initialPage\<lparr>currentSectionIndex := 1\<rparr>)
       = initialPage\<lparr>currentSectionIndex := 1\<rparr>
   \<and> handlePrevious (Some twoSections) (initialPage\<lparr>currentSectionIndex := 1\<rparr>)
       = Inr initialPage"
  using next_and_previous_walk_the_questions
    [of initialPage twoSections "\<lparr>title = ''one'', questions = [\<lparr>id_q = ''q1'', weight = 1\<rparr>]\<rparr>"]
    next_and_previous_walk_the_questions
    [of "initialPage\<lparr>currentSectionIndex := 1\<rparr>" twoSections
        "\<lparr>title = ''two'', questions = [\<lparr>id_q = ''q2'', weight = 1\<rparr>]\<rparr>"]
  by (simp add: initialPage_def twoSections_def arrayAt_def)

lemma cursorInRange_same_cursor:
  "currentSectionIndex s' = currentSectionIndex s \<Longrightarrow>
   currentQuestionIndex s' = currentQuestionIndex s \<Longrightarrow>
   cursorInRange a s' = cursorInRange a s"
  by (simp add: cursorInRange_def currentSection_def split: option.splits)

lemma timerTick_cursor:
  "currentSectionIndex (fst (timerTick a now s)) = currentSectionIndex s
   \<and> currentQuestionIndex (fst (timerTick a now s)) = currentQuestionIndex s"
  by (simp add: timerTick_def updateTimer_def Let_def split: option.splits)

lemma handleAnswerChange_cursor:
  "currentSectionIndex (fst (handleAnswerChange linkId saveOk q ans s)) = currentSectionIndex s
   \<and> currentQuestionIndex (fst (handleAnswerChange linkId saveOk q ans s))
       = currentQuestionIndex s"
  by (simp add: handleAnswerChange_def Let_def)

lemma clickSubmit_page: "fst (clickSubmit linkId isPending submitOk a s) = s"
  by (simp add: clickSubmit_def handleSubmit_def)

lemma step_keeps_cursor_in_range:
  assumes ne: "\<forall>sec \<in> set (sections A). questions sec \<noteq> []"
    and inv: "cursorInRange (Some A) s"
    and tgt: "targetInRange A e"
  shows "\<exists>s' effs. step linkId (Some A) e s = Inr (s', effs) \<and> cursorInRange (Some A) s'"
proof -
  obtain cs where cs: "arrayAt (sections A) (currentSectionIndex s) = Some cs"
    and q: "0 \<le> currentQuestionIndex s" "currentQuestionIndex s < int (length (questions cs))"
    using inv by (auto simp: cursorInRange_def currentSection_def split: option.splits)
  have si: "0 \<le> currentSectionIndex s" "currentSectionIndex s < int (length (sections A))"
    using cs by (simp_all add: arrayAt_def split: if_splits)
  have nonempty: "0 \<le> i \<Longrightarrow> i < int (length (sections A)) \<Longrightarrow>
      questions (sections A ! nat i) \<noteq> []" for i
    using ne by simp
  show ?thesis
  proof (cases e)
    case (Tick now)
    have "cursorInRange (Some A) (fst (timerTick (Some A) now s))"
      using inv cursorInRange_same_cursor timerTick_cursor by blast
    then show ?thesis
      using Tick by (cases "timerTick (Some A) now s") simp
  next
    case (AnswerChange saveOk questionId answer)
    have "cursorInRange (Some A) (fst (handleAnswerChange linkId saveOk questionId answer s))"
      using inv cursorInRange_same_cursor handleAnswerChange_cursor by blast
    then show ?thesis
      using AnswerChange
      by (cases "handleAnswerChange linkId saveOk questionId answer s") simp
  next
    case (NavigateTo sectionIndex questionIndex)
    have "cursorInRange (Some A) (fst (navigateToQuestion sectionIndex questionIndex s))"
      using inv tgt NavigateTo
      by (simp add: navigateToQuestion_def cursorInRange_def currentSection_def
          targetInRange_def split: option.splits)
    then show ?thesis
      using NavigateTo by (cases "navigateToQuestion sectionIndex questionIndex s") simp
  next
    case Next
    have "cursorInRange (Some A) (handleNext (Some A) s)"
      using inv cs q si nonempty [of "currentSectionIndex s + 1"]
      by (simp add: handleNext_def cursorInRange_def currentSection_def arrayAt_def)
    then show ?thesis
      using Next by simp
  next
    case Previous
    show ?thesis
    proof (cases "isTimeUp s \<or> currentQuestionIndex s > 0 \<or> currentSectionIndex s \<le> 0")
      case True
      then show ?thesis
        using Previous inv cs q
        by (auto simp: handlePrevious_def cursorInRange_def currentSection_def)
    next
      case False
      then show ?thesis
        using Previous si nonempty [of "currentSectionIndex s - 1"]
        by (simp add: handlePrevious_def cursorInRange_def currentSection_def arrayAt_def)
    qed
  next
    case (ClickSubmit isPending submitOk)
    have "cursorInRange (Some A) (fst (clickSubmit linkId isPending submitOk (Some A) s))"
      using inv by (simp add: clickSubmit_page)
    then show ?thesis
      using ClickSubmit by (cases "clickSubmit linkId isPending submitOk (Some A) s") simp
  qed
qed

text \<open>
  C6. The statement of the specification does not hold: \<open>navigateToQuestion\<close> stores the indices it is given and does not
  clamp, so a jump to (5, 7) in an assessment of two sections of one question each leaves
  the cursor at (5, 7), outside the assessment.
\<close>

theorem jump_out_of_range_is_not_clamped:
  "cursorInRange (Some twoSections) initialPage
   \<and> \<not> isTimeUp initialPage
   \<and> currentSectionIndex (fst (navigateToQuestion 5 7 initialPage)) = 5
   \<and> currentQuestionIndex (fst (navigateToQuestion 5 7 initialPage)) = 7
   \<and> \<not> cursorInRange (Some twoSections) (fst (navigateToQuestion 5 7 initialPage))"
  by (simp add: cursorInRange_def currentSection_def arrayAt_def navigateToQuestion_def
      initialPage_def twoSections_def)

text \<open>
  A section without questions breaks the range as well: next steps from the last question
  of a section into the following section at index 0 whether or not that section has a
  question.
\<close>

lemma next_enters_an_empty_section:
  "cursorInRange (Some (twoSections\<lparr>sections := sections twoSections @ [\<lparr>title = ''three'', questions = []\<rparr>]\<rparr>))
     (initialPage\<lparr>currentSectionIndex := 1\<rparr>)
   \<and> \<not> cursorInRange (Some (twoSections\<lparr>sections := sections twoSections @ [\<lparr>title = ''three'', questions = []\<rparr>]\<rparr>))
     (handleNext (Some (twoSections\<lparr>sections := sections twoSections @ [\<lparr>title = ''three'', questions = []\<rparr>]\<rparr>))
        (initialPage\<lparr>currentSectionIndex := 1\<rparr>))"
  by (simp add: cursorInRange_def currentSection_def arrayAt_def handleNext_def
      initialPage_def twoSections_def)

text \<open>
  C6, amended. While the time is not up, \<open>navigateToQuestion\<close> sets the cursor to exactly
  the pair it is given. In an assessment all of whose sections have a question, a cursor
  that is within range stays within range through every sequence of ticks, edits, next and
  previous steps, submit clicks and jumps whose targets are within range; no such
  sequence raises an error.
\<close>

theorem cursor_in_range_is_kept_by_in_range_jumps:
  assumes "\<forall>sec \<in> set (sections A). questions sec \<noteq> []"
    and "cursorInRange (Some A) s"
    and "\<forall>e \<in> set evs. targetInRange A e"
  shows "(\<exists>s' effs. run linkId (Some A) evs s = Inr (s', effs) \<and> cursorInRange (Some A) s')
       \<and> (\<not> isTimeUp s \<longrightarrow>
            currentSectionIndex (fst (navigateToQuestion i j s)) = i
          \<and> currentQuestionIndex (fst (navigateToQuestion i j s)) = j)"
proof -
  have "\<exists>s' effs. run linkId (Some A) evs s = Inr (s', effs) \<and> cursorInRange (Some A) s'"
    using assms(2,3)
  proof (induction evs arbitrary: s)
    case Nil
    then show ?case by simp
  next
    case (Cons e evs)
    obtain s1 effs1 where 1: "step linkId (Some A) e s = Inr (s1, effs1)"
      and i1: "cursorInRange (Some A) s1"
      using step_keeps_cursor_in_range [OF assms(1) Cons.prems(1), of e linkId] Cons.prems(2)
      by auto
    obtain s2 effs2 where 2: "run linkId (Some A) evs s1 = Inr (s2, effs2)"
      and i2: "cursorInRange (Some A) s2"
      using Cons.IH [OF i1] Cons.prems(2) by auto
    show ?case
      using 1 2 i2 by simp
  qed
  then show ?thesis
    by (simp add: navigateToQuestion_def)
qed

theorem cursor_in_range_is_kept_by_in_range_jumps_witness:
  "list_all (\<lambda>sec. questions sec \<noteq> []) (sections twoSections)
   \<and> cursorInRange (Some twoSections) initialPage
   \<and> list_all (targetInRange twoSections)
         [Next, NavigateTo 0 0, NavigateTo 1 0, Previous, Next, Next]
   \<and> (\<exists>s' effs. run ''L'' (Some twoSections)
          [Next, NavigateTo 0 0, NavigateTo 1 0, Previous, Next, Next] initialPage = Inr (s', effs)
        \<and> cursorInRange (Some twoSections) s')
   \<and> currentSectionIndex (fst (navigateToQuestion 1 0 initialPage)) = 1"
  using cursor_in_range_is_kept_by_in_range_jumps
    [of twoSections initialPage "[Next, NavigateTo 0 0, NavigateTo 1 0, Previous, Next, Next]"
        "''L''" 1 0]
  by (simp add: twoSections_def initialPage_def cursorInRange_def currentSection_def
      arrayAt_def targetInRange_def)

lemma totalQuestions_allQuestions: "totalQuestions a = length (allQuestions a)"
proof -
  have f: "fold (\<lambda>section acc. acc + length (questions section)) secs n
          = n + length (concat (map questions secs))" for secs :: "Section list" and n :: nat
    by (induction secs arbitrary: n) simp_all
  show ?thesis
    by (simp add: totalQuestions_def allQuestions_def f split: option.splits)
qed

lemma run_of_edits:
  assumes "\<not> isTimeUp s"
  shows "\<exists>effs. run linkId a (map (\<lambda>(saveOk, q, ans). AnswerChange saveOk q ans) calls) s
           = Inr (s\<lparr>answers := fold (\<lambda>(saveOk, q, ans). AList.update q ans) calls (answers s)\<rparr>,
                  effs)"
  using assms
proof (induction calls arbitrary: s)
  case Nil
  then show ?case by simp
next
  case (Cons c calls)
  obtain saveOk q ans where c: "c = (saveOk, q, ans)"
    by (cases c)
  let ?s1 = "s\<lparr>answers := AList.update q ans (answers s)\<rparr>"
  have 1: "fst (handleAnswerChange linkId saveOk q ans s) = ?s1"
    using Cons.prems by (rule handleAnswerChange_open)
  have "\<not> isTimeUp ?s1"
    using Cons.prems by simp
  from Cons.IH [OF this] obtain effs2 where
    2: "run linkId a (map (\<lambda>(saveOk, q, ans). AnswerChange saveOk q ans) calls) ?s1
          = Inr (?s1\<lparr>answers := fold (\<lambda>(saveOk, q, ans). AList.update q ans) calls (answers ?s1)\<rparr>,
                 effs2)"
    by blast
  show ?case
    using 1 2 by (cases "handleAnswerChange linkId saveOk q ans s") (simp add: c)
qed

lemma keys_of_edits:
  "fst ` set (fold (\<lambda>(saveOk, q, ans). AList.update q ans) calls al)
     = fst ` set al \<union> (\<lambda>(saveOk, q, ans). q) ` set calls"
proof (induction calls arbitrary: al)
  case Nil
  show ?case by simp
next
  case (Cons c calls)
  obtain saveOk q ans where c: "c = (saveOk, q, ans)"
    by (cases c)
  have "fst ` set (AList.update q ans al) = insert q (fst ` set al)"
    by (simp add: dom_update)
  then show ?case
    by (simp add: c Cons.IH)
qed

lemma distinct_of_edits:
  "distinct (map fst al) \<Longrightarrow>
   distinct (map fst (fold (\<lambda>(saveOk, q, ans). AList.update q ans) calls al))"
  by (induction calls arbitrary: al) (auto simp: distinct_update)

lemma distinct_restoredAnswers: "distinct (map fst (restoredAnswers saved))"
proof -
  have "distinct (map fst al) \<Longrightarrow>
        distinct (map fst (fold (\<lambda>answer acc.
          AList.update (assessmentEntryId_b answer) (restoreAnswer answer) acc) saved al))" for al
    by (induction saved arbitrary: al) (auto simp: distinct_update)
  then show ?thesis
    by (simp add: restoredAnswers_def)
qed

subsection \<open>Progress\<close>

text \<open>
  C2. The statement of the specification does not hold: the count of answered questions is the number of keys of the
  store, whatever the answers are. After one edit that stores a text of two blanks for
  \<open>q1\<close> the count is 1, and no stored answer is complete.
\<close>

theorem blank_answer_counts_as_answered:
  "\<not> isTimeUp initialPage
   \<and> answeredQuestions (fst (handleAnswerChange ''L'' True ''q1'' (blankText ''q1'') initialPage)) = 1
   \<and> completeAnswerCount (fst (handleAnswerChange ''L'' True ''q1'' (blankText ''q1'') initialPage)) = 0"
  by (simp add: answeredQuestions_def completeAnswerCount_def handleAnswerChange_def
      initialPage_def blankText_def validAnswers_def validAnswer_def trim_def isWhiteSpace_def)

text \<open>
  C2, amended. Starting from a store with one entry per key and the time not up, after
  every sequence of edits the count of answered questions is the number of distinct
  question ids in the store, that is the ids stored at the start and the ids edited,
  whether their answers are complete or not. The count does not exceed the total number
  of questions as long as all these ids are ids of questions of the assessment.
\<close>

theorem answered_count_is_number_of_stored_ids:
  assumes "\<not> isTimeUp s" and "distinct (map fst (answers s))"
  shows "\<exists>s' effs.
           run linkId a (map (\<lambda>(saveOk, q, ans). AnswerChange saveOk q ans) calls) s
             = Inr (s', effs)
         \<and> answeredQuestions s'
             = card (fst ` set (answers s) \<union> (\<lambda>(saveOk, q, ans). q) ` set calls)
         \<and> (fst ` set (answers s) \<union> (\<lambda>(saveOk, q, ans). q) ` set calls
               \<subseteq> id_q ` set (allQuestions a)
             \<longrightarrow> answeredQuestions s' \<le> totalQuestions a)"
proof -
  let ?al = "fold (\<lambda>(saveOk, q, ans). AList.update q ans) calls (answers s)"
  let ?K = "fst ` set (answers s) \<union> (\<lambda>(saveOk, q, ans). q) ` set calls"
  obtain effs where r:
    "run linkId a (map (\<lambda>(saveOk, q, ans). AnswerChange saveOk q ans) calls) s
       = Inr (s\<lparr>answers := ?al\<rparr>, effs)"
    using run_of_edits [OF assms(1)] by blast
  have "length ?al = card (set (map fst ?al))"
    using distinct_of_edits [OF assms(2)] by (metis distinct_card length_map)
  then have n: "answeredQuestions (s\<lparr>answers := ?al\<rparr>) = card ?K"
    by (simp add: answeredQuestions_def keys_of_edits)
  have le: "card ?K \<le> totalQuestions a" if sub: "?K \<subseteq> id_q ` set (allQuestions a)"
  proof -
    have "card ?K \<le> card (id_q ` set (allQuestions a))"
      using sub by (simp add: card_mono)
    also have "\<dots> \<le> card (set (allQuestions a))"
      by (simp add: card_image_le)
    also have "\<dots> \<le> length (allQuestions a)"
      by (rule card_length)
    finally show ?thesis
      by (simp add: totalQuestions_allQuestions)
  qed
  show ?thesis
    using r n le by auto
qed

theorem answered_count_is_number_of_stored_ids_witness:
  "\<not> isTimeUp initialPage \<and> distinct (map fst (answers initialPage))
   \<and> (\<exists>s' effs.
         run ''L'' (Some twoSections)
           (map (\<lambda>(saveOk, q, ans). AnswerChange saveOk q ans)
              [(True, ''q1'', blankText ''q1''), (True, ''q1'', oneChoice ''q1'')]) initialPage
           = Inr (s', effs)
       \<and> answeredQuestions s' = 1 \<and> answeredQuestions s' \<le> totalQuestions (Some twoSections))"
proof -
  have k: "fst ` set (answers initialPage) \<union>
        (\<lambda>(saveOk, q, ans). q) ` set [(True, ''q1'', blankText ''q1''), (True, ''q1'', oneChoice ''q1'')]
        = {''q1''}"
    by (simp add: initialPage_def)
  have sub: "{''q1''} \<subseteq> id_q ` set (allQuestions (Some twoSections))"
    by (simp add: allQuestions_def twoSections_def)
  have "\<not> isTimeUp initialPage" "distinct (map fst (answers initialPage))"
    by (simp_all add: initialPage_def)
  then show ?thesis
    using answered_count_is_number_of_stored_ids
      [of initialPage "''L''" "Some twoSections"
          "[(True, ''q1'', blankText ''q1''), (True, ''q1'', oneChoice ''q1'')]"]
      sub
    unfolding k by simp
qed

lemma full_store_covers_questions:
  assumes "distinct (map fst al)" and "distinct (map id_q qs)"
    and "fst ` set al \<subseteq> id_q ` set qs" and "length al = length qs"
  shows "\<forall>question \<in> set qs. map_of al (id_q question) \<noteq> None"
proof -
  have "card (fst ` set al) = length al"
    using assms(1) by (metis distinct_card length_map set_map)
  moreover have "card (id_q ` set qs) = length qs"
    using assms(2) by (metis distinct_card length_map set_map)
  ultimately have "fst ` set al = id_q ` set qs"
    using assms(3,4) by (simp add: card_subset_eq)
  then show ?thesis
    by (auto simp: map_of_eq_None_iff)
qed

subsection \<open>Submission\<close>

text \<open>
  C1. The statement of the specification does not hold: the gate of the submit button compares the number of stored
  answers with the number of questions and does not look at the answers. After a text of
  two blanks has been stored for each of the two questions, the time not being up, the
  button is enabled and a click calls the submission collaborator and leaves the page,
  although no question has a complete answer.
\<close>

theorem submit_passes_with_blank_answers:
  "\<not> isTimeUp (initialPage\<lparr>answers := [(''q1'', blankText ''q1''), (''q2'', blankText ''q2'')]\<rparr>)
   \<and> run ''L'' (Some twoSections)
        [AnswerChange True ''q1'' (blankText ''q1''), AnswerChange True ''q2'' (blankText ''q2'')]
        initialPage
      = Inr (initialPage\<lparr>answers := [(''q1'', blankText ''q1''), (''q2'', blankText ''q2'')]\<rparr>, [])
   \<and> \<not> everyQuestionComplete (Some twoSections)
        (initialPage\<lparr>answers := [(''q1'', blankText ''q1''), (''q2'', blankText ''q2'')]\<rparr>)
   \<and> clickSubmit ''L'' False True (Some twoSections)
        (initialPage\<lparr>answers := [(''q1'', blankText ''q1''), (''q2'', blankText ''q2'')]\<rparr>)
      = (initialPage\<lparr>answers := [(''q1'', blankText ''q1''), (''q2'', blankText ''q2'')]\<rparr>,
         [CallSubmitAssessment ''L'', RouterPush ''/''])"
  by (simp add: initialPage_def twoSections_def blankText_def handleAnswerChange_def
      validAnswers_def validAnswer_def trim_def isWhiteSpace_def everyQuestionComplete_def
      allQuestions_def clickSubmit_def submitDisabled_def allQuestionsAnswered_def
      answeredQuestions_def totalQuestions_def handleSubmit_def)

text \<open>
  C1, amended. A click on the submit button calls the submission collaborator exactly
  when no submission is pending, the time is not up and the number of stored answers,
  complete or not, equals the number of questions, which is not zero. A click on the
  disabled button calls nothing and leaves the page as it is. A click on the enabled
  button makes the call; when the call succeeds the page is left for the route \<open>/\<close>,
  when it fails the failure is written to the console, and the state is unchanged in both
  cases. When the store has one entry per id, holds ids of questions only, and the ids of
  the questions are distinct, an enabled button means that every question has a stored
  answer.
\<close>

theorem submit_is_gated_by_the_number_of_stored_answers:
  "(CallSubmitAssessment linkId \<in> set (snd (clickSubmit linkId isPending submitOk a s))
      \<longleftrightarrow> \<not> isPending \<and> \<not> isTimeUp s
          \<and> length (answers s) = totalQuestions a \<and> 0 < totalQuestions a)
   \<and> (submitDisabled isPending a s \<longrightarrow> clickSubmit linkId isPending submitOk a s = (s, []))
   \<and> (\<not> submitDisabled isPending a s \<longrightarrow>
        clickSubmit linkId isPending submitOk a s =
          (s, CallSubmitAssessment linkId #
              (if submitOk then [RouterPush ''/'']
               else [ConsoleError ''Failed to submit assessment:''])))
   \<and> (\<not> submitDisabled isPending a s \<and> distinct (map fst (answers s))
        \<and> distinct (map id_q (allQuestions a))
        \<and> fst ` set (answers s) \<subseteq> id_q ` set (allQuestions a) \<longrightarrow>
        (\<forall>question \<in> set (allQuestions a). map_of (answers s) (id_q question) \<noteq> None))"
proof -
  have gate: "submitDisabled isPending a s \<longleftrightarrow>
      \<not> (\<not> isPending \<and> \<not> isTimeUp s \<and> length (answers s) = totalQuestions a
         \<and> 0 < totalQuestions a)"
    by (auto simp: submitDisabled_def allQuestionsAnswered_def answeredQuestions_def)
  have 1: "CallSubmitAssessment linkId \<in> set (snd (clickSubmit linkId isPending submitOk a s))
      \<longleftrightarrow> \<not> isPending \<and> \<not> isTimeUp s
          \<and> length (answers s) = totalQuestions a \<and> 0 < totalQuestions a"
    using gate by (auto simp: clickSubmit_def handleSubmit_def)
  have 2: "submitDisabled isPending a s \<longrightarrow> clickSubmit linkId isPending submitOk a s = (s, [])"
    by (simp add: clickSubmit_def)
  have 3: "\<not> submitDisabled isPending a s \<longrightarrow>
        clickSubmit linkId isPending submitOk a s =
          (s, CallSubmitAssessment linkId #
              (if submitOk then [RouterPush ''/'']
               else [ConsoleError ''Failed to submit assessment:'']))"
    by (simp add: clickSubmit_def handleSubmit_def)
  have 4: "\<forall>question \<in> set (allQuestions a). map_of (answers s) (id_q question) \<noteq> None"
    if "\<not> submitDisabled isPending a s" "distinct (map fst (answers s))"
      "distinct (map id_q (allQuestions a))"
      "fst ` set (answers s) \<subseteq> id_q ` set (allQuestions a)"
  proof -
    have "length (answers s) = length (allQuestions a)"
      using that(1) by (simp add: gate totalQuestions_allQuestions)
    then show ?thesis
      using full_store_covers_questions that(2,3,4) by blast
  qed
  show ?thesis
    using 1 2 3 4 by blast
qed

theorem submit_is_gated_by_the_number_of_stored_answers_witness:
  "\<not> submitDisabled False (Some twoSections)
       (initialPage\<lparr>answers := [(''q1'', oneChoice ''q1''), (''q2'', oneChoice ''q2'')]\<rparr>)
   \<and> submitDisabled False (Some twoSections)
       (initialPage\<lparr>answers := [(''q1'', oneChoice ''q1'')]\<rparr>)
   \<and> clickSubmit ''L'' False True (Some twoSections)
       (initialPage\<lparr>answers := [(''q1'', oneChoice ''q1'')]\<rparr>)
     = (initialPage\<lparr>answers := [(''q1'', oneChoice ''q1'')]\<rparr>, [])
   \<and> CallSubmitAssessment ''L'' \<in> set (snd (clickSubmit ''L'' False True (Some twoSections)
       (initialPage\<lparr>answers := [(''q1'', oneChoice ''q1''), (''q2'', oneChoice ''q2'')]\<rparr>)))
   \<and> distinct (map id_q (allQuestions (Some twoSections)))
   \<and> list_all
        (\<lambda>question.
           map_of (answers (initialPage\<lparr>answers := [(''q1'', oneChoice ''q1''), (''q2'', oneChoice ''q2'')]\<rparr>))
             (id_q question) \<noteq> None)
        (allQuestions (Some twoSections))"
  using submit_is_gated_by_the_number_of_stored_answers
    [of "''L''" False True "Some twoSections"
        "initialPage\<lparr>answers := [(''q1'', oneChoice ''q1''), (''q2'', oneChoice ''q2'')]\<rparr>"]
    submit_is_gated_by_the_number_of_stored_answers
    [of "''L''" False True "Some twoSections"
        "initialPage\<lparr>answers := [(''q1'', oneChoice ''q1'')]\<rparr>"]
  by (simp add: initialPage_def twoSections_def submitDisabled_def allQuestionsAnswered_def
      answeredQuestions_def totalQuestions_def allQuestions_def)

end
